theory Spec2Isabelle
  imports Complex_Main "HOL-Library.Multiset"
begin

section \<open>Objectives of the vision-language model: a shallow embedding\<close>

text \<open>
  The source is \<^verbatim>\<open>src/ptunifier/models/objectives.py\<close>. Each objective is modelled
  from the place where the results of the external collaborators (the encoder's
  \<^verbatim>\<open>infer\<close>, the task heads, the tokenizer, \<^verbatim>\<open>torch.randperm\<close>) are
  at hand: those results are arguments of the model. Tensors are nested lists;
  floating-point values are idealised as \<^typ>\<open>real\<close>, and a division whose divisor is
  zero (NaN or an infinity in torch) is the value \<^term>\<open>None\<close>. Every exception the
  modelled lines can raise is a value of \<open>py_error\<close>. The metric accumulators and
  the logging calls at the end of each objective write to \<^verbatim>\<open>pl_module\<close> only and
  are left out.
\<close>

datatype py_error = KeyError | IndexError | RuntimeError | ValueError | TypeError

subsection \<open>Image-text matching: \<^verbatim>\<open>compute_itm\<close>\<close>

text \<open>
  A batch is a dictionary from field names to values. The fields \<^verbatim>\<open>compute_itm\<close>
  reads are lists: \<^verbatim>\<open>batch["text"]\<close> a list of strings,
  \<^verbatim>\<open>batch["image"]\<close> and \<^verbatim>\<open>batch["false_image_0"]\<close> lists of views, each view
  a batch of images. Any other value is \<open>Opaque\<close>.
\<close>

datatype 'img field = Views "'img list list" | Strs "string list" | Opaque nat

type_synonym 'img batch = "string \<rightharpoonup> 'img field"

text \<open>
  Dictionaries are objects: the heap is the list of the dictionaries allocated so far,
  and a reference is an index into it. Allocation appends.
\<close>

type_synonym 'img heap = "'img batch list"

definition getitem :: "'img batch \<Rightarrow> string \<Rightarrow> py_error + 'img field" where
  "getitem d k = (case d k of None \<Rightarrow> Inl KeyError | Some v \<Rightarrow> Inr v)"

fun field_len :: "'img field \<Rightarrow> py_error + nat" where
  "field_len (Views vs) = Inr (length vs)"
| "field_len (Strs ss) = Inr (length ss)"
| "field_len (Opaque _) = Inl TypeError"

fun field_views :: "'img field \<Rightarrow> py_error + 'img list list" where
  "field_views (Views vs) = Inr vs"
| "field_views _ = Inl TypeError"

text \<open>
  \<^verbatim>\<open>torch.cat([torch.ones(pos_len), torch.zeros(neg_len)])\<close> with
  \<^verbatim>\<open>pos_len = n // 2\<close> and \<^verbatim>\<open>neg_len = n - pos_len\<close>. The labels are the floats
  1.0 and 0.0, written as the integers 1 and 0 (what \<^verbatim>\<open>.long()\<close> makes of them).
\<close>

definition itm_labels_sorted :: "nat \<Rightarrow> int list" where
  "itm_labels_sorted n =
     (let pos_len = n div 2; neg_len = n - pos_len
      in replicate pos_len 1 @ replicate neg_len 0)"

text \<open>Indexing a vector by an index vector, \<^verbatim>\<open>xs[idx]\<close>: out of range raises.\<close>

fun index_select :: "'a list \<Rightarrow> nat list \<Rightarrow> py_error + 'a list" where
  "index_select xs [] = Inr []"
| "index_select xs (j # js) =
     (if j < length xs
      then (case index_select xs js of Inl e \<Rightarrow> Inl e | Inr ys \<Rightarrow> Inr (xs ! j # ys))
      else Inl IndexError)"

text \<open>
  \<^verbatim>\<open>itm_labels[torch.randperm(itm_labels.size(0))]\<close>. The permutation drawn by
  \<^verbatim>\<open>torch.randperm\<close> is the argument \<open>perm\<close>.
\<close>

definition itm_labels_of :: "nat \<Rightarrow> nat list \<Rightarrow> py_error + int list" where
  "itm_labels_of n perm = index_select (itm_labels_sorted n) perm"

text \<open>
  The inner comprehension
  \<^verbatim>\<open>[ti if itm_labels[i] == 1 else fi for i, (ti, fi) in enumerate(zip(bti, bfi))]\<close>,
  from position \<open>i\<close> on.
\<close>

fun itm_pick :: "int list \<Rightarrow> nat \<Rightarrow> ('img \<times> 'img) list \<Rightarrow> py_error + 'img list" where
  "itm_pick labels i [] = Inr []"
| "itm_pick labels i ((ti, fi) # rest) =
     (if i < length labels
      then (case itm_pick labels (Suc i) rest of
              Inl e \<Rightarrow> Inl e
            | Inr ys \<Rightarrow> Inr ((if labels ! i = 1 then ti else fi) # ys))
      else Inl IndexError)"

text \<open>\<^verbatim>\<open>torch.stack\<close> of a list of tensors: an empty list raises.\<close>

definition stack :: "'a list \<Rightarrow> py_error + 'a list" where
  "stack xs = (if xs = [] then Inl RuntimeError else Inr xs)"

definition itm_view :: "int list \<Rightarrow> 'img list \<Rightarrow> 'img list \<Rightarrow> py_error + 'img list" where
  "itm_view labels bti bfi =
     (case itm_pick labels 0 (zip bti bfi) of Inl e \<Rightarrow> Inl e | Inr ys \<Rightarrow> stack ys)"

text \<open>The outer comprehension over \<^verbatim>\<open>zip(batch["image"], batch["false_image_0"])\<close>.\<close>

fun itm_views :: "int list \<Rightarrow> ('img list \<times> 'img list) list \<Rightarrow> py_error + 'img list list" where
  "itm_views labels [] = Inr []"
| "itm_views labels ((bti, bfi) # rest) =
     (case itm_view labels bti bfi of
        Inl e \<Rightarrow> Inl e
      | Inr v \<Rightarrow> (case itm_views labels rest of Inl e \<Rightarrow> Inl e | Inr vs \<Rightarrow> Inr (v # vs)))"

definition itm_images :: "int list \<Rightarrow> 'img list list \<Rightarrow> 'img list list \<Rightarrow> py_error + 'img list list" where
  "itm_images labels images false_images = itm_views labels (zip images false_images)"

text \<open>
  Lines 143 to 159 of \<^verbatim>\<open>compute_itm\<close>: the labels, the images, then
  \<^verbatim>\<open>batch = {k: v for k, v in batch.items()}\<close>, which allocates a new dictionary
  and rebinds the local name, and \<^verbatim>\<open>batch["image"] = itm_images\<close>, which writes to
  the dictionary the local name now refers to. The result is the heap, the labels and
  the reference handed to \<^verbatim>\<open>pl_module.infer\<close>. The caller's reference is \<open>a\<close>.
\<close>

definition itm_prepare ::
  "'img heap \<Rightarrow> nat \<Rightarrow> nat list \<Rightarrow> 'img heap \<times> (py_error + int list \<times> nat)" where
  "itm_prepare h a perm =
     (case getitem (h ! a) ''text'' of Inl e \<Rightarrow> (h, Inl e) | Inr txt \<Rightarrow>
      case field_len txt of Inl e \<Rightarrow> (h, Inl e) | Inr n \<Rightarrow>
      case itm_labels_of n perm of Inl e \<Rightarrow> (h, Inl e) | Inr labels \<Rightarrow>
      case getitem (h ! a) ''image'' of Inl e \<Rightarrow> (h, Inl e) | Inr im \<Rightarrow>
      case field_views im of Inl e \<Rightarrow> (h, Inl e) | Inr images \<Rightarrow>
      case getitem (h ! a) ''false_image_0'' of Inl e \<Rightarrow> (h, Inl e) | Inr fim \<Rightarrow>
      case field_views fim of Inl e \<Rightarrow> (h, Inl e) | Inr false_images \<Rightarrow>
      case itm_images labels images false_images of Inl e \<Rightarrow> (h, Inl e) | Inr imgs \<Rightarrow>
        (let b = length h;
             h1 = h @ [h ! a];
             h2 = h1[b := (h1 ! b)(''image'' \<mapsto> Views imgs)]
         in (h2, Inr (labels, b))))"

subsection \<open>\<^verbatim>\<open>torch.nn.functional.cross_entropy\<close>\<close>

text \<open>
  The library function, as PyTorch documents it for class-index targets and the default
  mean reduction: the loss of one row is the negative log-softmax of the row at its
  target, rows whose target is \<^verbatim>\<open>ignore_index\<close> are left out, and the sum is
  divided by the number of rows that are left (0/0, NaN, when none is). A target that
  is neither \<^verbatim>\<open>ignore_index\<close> nor a class index raises, and so do batch sizes
  that differ.
\<close>

definition nll :: "real list \<Rightarrow> int \<Rightarrow> real" where
  "nll x y = ln (sum_list (map exp x)) - x ! nat y"

definition mean_nll :: "(real list \<times> int) list \<Rightarrow> real option" where
  "mean_nll kept =
     (if kept = [] then None
      else Some (sum_list (map (\<lambda>(x, y). nll x y) kept) / real (length kept)))"

definition cross_entropy :: "int \<Rightarrow> real list list \<Rightarrow> int list \<Rightarrow> py_error + real option" where
  "cross_entropy ignore_index input target =
     (if length input \<noteq> length target then Inl ValueError
      else if list_ex (\<lambda>(x, y). y \<noteq> ignore_index \<and> \<not> (0 \<le> y \<and> y < int (length x)))
                (zip input target) then Inl IndexError
      else Inr (mean_nll (filter (\<lambda>(x, y). y \<noteq> ignore_index) (zip input target))))"

subsection \<open>\<^verbatim>\<open>compute_itm\<close> as a whole\<close>

record itm_ret =
  itm_loss :: "real option"
  itm_logits :: "real list list"
  itm_labels :: "int list"

text \<open>
  \<open>itm_head_infer\<close> stands for
  \<^verbatim>\<open>pl_module.itm_head(pl_module.infer(batch, ...)["multi_modal_cls_feats"])\<close>, a
  function of the dictionary it is handed. The default \<^verbatim>\<open>ignore_index\<close> of
  \<^verbatim>\<open>F.cross_entropy\<close> is -100.
\<close>

definition compute_itm ::
  "('img batch \<Rightarrow> real list list) \<Rightarrow> 'img heap \<Rightarrow> nat \<Rightarrow> nat list \<Rightarrow> 'img heap \<times> (py_error + itm_ret)" where
  "compute_itm itm_head_infer h a perm =
     (case itm_prepare h a perm of
        (h', Inl e) \<Rightarrow> (h', Inl e)
      | (h', Inr (labels, b)) \<Rightarrow>
          (let logits = itm_head_infer (h' ! b)
           in case cross_entropy (- 100) logits labels of
                Inl e \<Rightarrow> (h', Inl e)
              | Inr loss \<Rightarrow>
                  (h', Inr \<lparr>itm_loss = loss, itm_logits = logits, itm_labels = labels\<rparr>)))"

subsection \<open>The VQA targets: \<^verbatim>\<open>compute_vqa\<close>, lines 212 to 220\<close>

text \<open>A Python index into a sequence of length \<open>n\<close>: a negative index counts from the end.\<close>

definition norm_index :: "nat \<Rightarrow> int \<Rightarrow> py_error + nat" where
  "norm_index n l =
     (let j = (if l < 0 then l + int n else l)
      in if 0 \<le> j \<and> j < int n then Inr (nat j) else Inl IndexError)"

text \<open>
  The inner loop \<^verbatim>\<open>for l, s in zip(_label, _score): vqa_targets[i, l] = s\<close> on row
  \<open>i\<close> of the target matrix: an assignment to the cell.
\<close>

fun vqa_scatter_row :: "real list \<Rightarrow> (int \<times> real) list \<Rightarrow> py_error + real list" where
  "vqa_scatter_row row [] = Inr row"
| "vqa_scatter_row row ((l, s) # ps) =
     (case norm_index (length row) l of
        Inl e \<Rightarrow> Inl e
      | Inr j \<Rightarrow> vqa_scatter_row (row[j := s]) ps)"

text \<open>
  The outer loop over \<^verbatim>\<open>enumerate(zip(vqa_labels, vqa_scores))\<close>, from example
  \<open>i\<close> on. An example with no pair indexes nothing; one with a pair and no row raises.
\<close>

fun vqa_scatter :: "real list list \<Rightarrow> nat \<Rightarrow> (int list \<times> real list) list \<Rightarrow> py_error + real list list" where
  "vqa_scatter targets i [] = Inr targets"
| "vqa_scatter targets i ((label, score) # rest) =
     (if zip label score = [] then vqa_scatter targets (Suc i) rest
      else if i < length targets
      then (case vqa_scatter_row (targets ! i) (zip label score) of
              Inl e \<Rightarrow> Inl e
            | Inr row \<Rightarrow> vqa_scatter (targets[i := row]) (Suc i) rest)
      else Inl IndexError)"

text \<open>
  \<open>n\<close> is \<^verbatim>\<open>len(vqa_logits)\<close> and \<open>label_size\<close> is
  \<^verbatim>\<open>config["vqa_label_size"]\<close>; the matrix starts as \<^verbatim>\<open>torch.zeros\<close>.
\<close>

definition vqa_targets :: "nat \<Rightarrow> nat \<Rightarrow> int list list \<Rightarrow> real list list \<Rightarrow> py_error + real list list" where
  "vqa_targets n label_size vqa_labels vqa_scores =
     vqa_scatter (replicate n (replicate label_size 0)) 0 (zip vqa_labels vqa_scores)"

text \<open>
  For stating what a cell holds in the end: the cell a label addresses, and the score
  of the last pair of a list that addresses cell \<open>c\<close> (0, the initial value, when no
  pair does).
\<close>

definition cell_index :: "nat \<Rightarrow> int \<Rightarrow> nat" where
  "cell_index m l = nat (if l < 0 then l + int m else l)"

definition last_score :: "nat \<Rightarrow> (int \<times> real) list \<Rightarrow> nat \<Rightarrow> real" where
  "last_score m ps c =
     (case map_of (rev (map (\<lambda>(l, s). (cell_index m l, s)) ps)) c of None \<Rightarrow> 0 | Some s \<Rightarrow> s)"

subsection \<open>The masked image modelling loss: \<^verbatim>\<open>compute_mim\<close>, \<^verbatim>\<open>compute_umim\<close>\<close>

text \<open>
  \<^verbatim>\<open>mim_logits\<close> and \<^verbatim>\<open>mim_labels\<close> have shape [N, L, D], \<^verbatim>\<open>mask\<close> has
  shape [N, L]; the model is for tensors of these shapes (torch broadcasts or raises on
  others). \<^verbatim>\<open>mim_labels\<close> is the target after the optional pixel normalisation of
  lines 78 to 81. The mean of an empty axis is NaN, and so is all it flows into.
\<close>

definition mean :: "real list \<Rightarrow> real option" where
  "mean xs = (if xs = [] then None else Some (sum_list xs / real (length xs)))"

text \<open>\<^verbatim>\<open>((logits - labels) ** 2).mean(dim=-1)\<close> for one patch.\<close>

definition patch_loss :: "real list \<Rightarrow> real list \<Rightarrow> real option" where
  "patch_loss logit label = mean (map2 (\<lambda>x y. (x - y) ^ 2) logit label)"

text \<open>
  \<^verbatim>\<open>(mim_loss * mask).sum() / mask.sum()\<close>. \<^term>\<open>None\<close> is a result that is no
  finite number: a NaN patch loss, or a division by a mask sum of zero.
\<close>

definition masked_mean :: "real option list list \<Rightarrow> real list list \<Rightarrow> real option" where
  "masked_mean per_patch mim_masks =
     (if list_ex (\<lambda>p. p = None) (concat per_patch) then None
      else if sum_list (concat mim_masks) = 0 then None
      else Some (sum_list (concat (map2 (map2 (\<lambda>p w. the p * w)) per_patch mim_masks))
                 / sum_list (concat mim_masks)))"

definition mim_loss :: "real list list list \<Rightarrow> real list list list \<Rightarrow> real list list \<Rightarrow> real option" where
  "mim_loss mim_logits mim_labels mim_masks =
     masked_mean (map2 (map2 patch_loss) mim_logits mim_labels) mim_masks"

definition umim_loss :: "real list list list \<Rightarrow> real list list list \<Rightarrow> real list list \<Rightarrow> real option" where
  "umim_loss umim_logits umim_labels mim_masks =
     masked_mean (map2 (map2 patch_loss) umim_logits umim_labels) mim_masks"

text \<open>
  What the specification asks of the loss, in its words: the mean, over the masked
  (removed) patches only, of the squared error averaged over the feature axis. The
  masked patches are those whose mask entry is 1.
\<close>

definition masked_patches :: "real list list list \<Rightarrow> real list list list \<Rightarrow> real list list \<Rightarrow> (real list \<times> real list) list" where
  "masked_patches logits labels mim_masks =
     map fst (filter (\<lambda>(p, w). w = 1) (zip (concat (map2 zip logits labels)) (concat mim_masks)))"

definition spec_masked_mse :: "real list list list \<Rightarrow> real list list list \<Rightarrow> real list list \<Rightarrow> real" where
  "spec_masked_mse logits labels mim_masks =
     (let sel = masked_patches logits labels mim_masks
      in sum_list (map (\<lambda>(x, y). sum_list (map2 (\<lambda>a b. (a - b) ^ 2) x y) / real (length x)) sel)
         / real (length sel))"

subsection \<open>Image-text contrast: \<^verbatim>\<open>compute_itc\<close>\<close>

record itc_ret =
  itc_loss :: "real option"
  itc_logits_image :: "real list list"
  itc_logits_text :: "real list list"
  itc_labels :: "int list"

text \<open>
  From line 188 on; the two logit matrices are what \<^verbatim>\<open>pl_module.itc_head\<close>
  returned. \<^verbatim>\<open>torch.arange(itc_logits_image.size(0))\<close> is the list of the row
  numbers. A NaN loss of one direction makes the mean NaN.
\<close>

definition compute_itc :: "real list list \<Rightarrow> real list list \<Rightarrow> py_error + itc_ret" where
  "compute_itc logits_image logits_text =
     (let labels = map int [0..<length logits_image]
      in case cross_entropy (- 100) logits_image labels of Inl e \<Rightarrow> Inl e | Inr itc_loss_image \<Rightarrow>
         case cross_entropy (- 100) logits_text labels of Inl e \<Rightarrow> Inl e | Inr itc_loss_text \<Rightarrow>
           Inr \<lparr>itc_loss = (case (itc_loss_image, itc_loss_text) of
                               (Some a, Some b) \<Rightarrow> Some ((a + b) / 2)
                             | _ \<Rightarrow> None),
                itc_logits_image = logits_image,
                itc_logits_text = logits_text,
                itc_labels = labels\<rparr>)"

subsection \<open>Captioning: \<^verbatim>\<open>compute_clm\<close>\<close>

datatype phase = Train | Val | Test

definition phase_of :: "bool \<Rightarrow> bool \<Rightarrow> phase" where
  "phase_of test training = (if test then Test else if training then Train else Val)"

definition fallback_text :: string where
  "fallback_text = ''there is no evidence of pulmonary.''"

text \<open>
  The result dictionary; the two keys that exist outside training only are optional
  fields.
\<close>

record clm_ret =
  clm_loss :: "real option"
  clm_logits :: "real list list list"
  clm_labels :: "int list list"
  gen_texts :: "string list option"
  gt_texts :: "string list option"

text \<open>
  The arguments are the flags, \<^verbatim>\<open>clm_tokenizer.pad_token_id\<close>, the lower-cased
  \<^verbatim>\<open>texts\<close>, \<^verbatim>\<open>outputs.logits\<close> of shape [B, L, V],
  \<^verbatim>\<open>texts_inputs.input_ids\<close> of shape [B, L], and \<open>decoded\<close>, what
  \<^verbatim>\<open>clm_tokenizer.batch_decode\<close> returns for the generated sequences (read outside
  training only). \<^verbatim>\<open>[:, :-1, :]\<close> drops the last position of every example,
  \<^verbatim>\<open>[:, 1:]\<close> the first; \<^verbatim>\<open>view\<close> flattens the two leading axes.
\<close>

definition compute_clm ::
  "bool \<Rightarrow> bool \<Rightarrow> int \<Rightarrow> string list \<Rightarrow> real list list list \<Rightarrow> int list list \<Rightarrow> string list
   \<Rightarrow> py_error + clm_ret" where
  "compute_clm test training pad_token_id texts logits input_ids decoded =
     (let phase = phase_of test training;
          logits' = map butlast logits;
          labels = map tl input_ids
      in case cross_entropy pad_token_id (concat logits') (concat labels) of
           Inl e \<Rightarrow> Inl e
         | Inr loss \<Rightarrow>
             Inr (if \<not> phase = Train
                  then \<lparr>clm_loss = loss, clm_logits = logits', clm_labels = labels,
                        gen_texts = Some (map (\<lambda>text. if length text > 0 then text else fallback_text)
                                            decoded),
                        gt_texts = Some texts\<rparr>
                  else \<lparr>clm_loss = loss, clm_logits = logits', clm_labels = labels,
                        gen_texts = None, gt_texts = None\<rparr>))"

text \<open>
  For stating the shift: the logits at positions \<open>0..L-2\<close> of every example, each
  paired with the input id one position later.
\<close>

definition shifted_pairs :: "real list list list \<Rightarrow> int list list \<Rightarrow> (real list \<times> int) list" where
  "shifted_pairs logits input_ids =
     concat (map2 (\<lambda>xs ys. map (\<lambda>t. (xs ! t, ys ! Suc t)) [0..<length ys - 1]) logits input_ids)"

subsection \<open>Retrieval training: \<^verbatim>\<open>compute_irtr\<close>\<close>










subsection \<open>Retrieval recall: \<^verbatim>\<open>compute_irtr_recall\<close>, lines 511 to 533\<close>

text \<open>
  The arguments are the tensors the last part of the function works on: \<open>iids\<close>, the
  gathered image ids (line 507), \<open>tiids\<close>, the source-image index of every text
  (line 469), and \<open>scores\<close>, the dense matrix of line 509 with one row per image and
  one column per text. Lines 506 to 509 build them from what \<^verbatim>\<open>all_gather\<close>
  returns.

  \<^verbatim>\<open>torch.topk\<close> returns the indices of the \<open>k\<close> largest entries, largest first,
  and raises when there are fewer than \<open>k\<close> entries. Among equal entries the model
  takes the lower index first; torch leaves that order open.
\<close>

definition topk_indices :: "nat \<Rightarrow> real list \<Rightarrow> nat list" where
  "topk_indices k xs = take k (map fst (sort_key (\<lambda>(i, x). - x) (zip [0..<length xs] xs)))"











section \<open>Properties\<close>

subsection \<open>Shared lemmas\<close>

lemma index_select_map:
  "\<forall>j\<in>set js. j < length xs \<Longrightarrow> index_select xs js = Inr (map ((!) xs) js)"
  by (induction js) auto

lemma count_list_replicate: "count_list (replicate k x) y = (if x = y then k else 0)"
  by (induction k) auto

lemma length_itm_labels_sorted: "length (itm_labels_sorted n) = n"
  by (simp add: itm_labels_sorted_def Let_def)

lemma mset_index_perm:
  assumes "mset perm = mset [0..<length xs]"
  shows "mset (map ((!) xs) perm) = mset xs"
proof -
  have "mset (map ((!) xs) perm) = image_mset ((!) xs) (mset perm)" by simp
  also have "\<dots> = mset (map ((!) xs) [0..<length xs])" using assms by simp
  also have "\<dots> = mset xs" by (simp add: map_nth)
  finally show ?thesis .
qed

lemma perm_in_range:
  assumes "mset perm = mset [0..<n]" shows "\<forall>j\<in>set perm. j < n"
proof -
  have "set perm = set [0..<n]" using assms by (metis set_mset_mset)
  then show ?thesis by simp
qed

subsection \<open>The ITM labels\<close>

text \<open>
  Claim C1, as amended. Whatever permutation of \<open>0..n-1\<close> \<^verbatim>\<open>torch.randperm\<close>
  draws, the label vector of \<^verbatim>\<open>compute_itm\<close> for a batch of \<open>n\<close> examples has
  length \<open>n\<close> and holds exactly \<open>floor(n/2)\<close> ones and \<open>n - floor(n/2) = ceil(n/2)\<close>
  zeros: \<^verbatim>\<open>pos_len = n // 2\<close> is the number of ones, and permuting the vector
  leaves the counts as they are.
\<close>

theorem itm_label_counts:
  assumes "mset perm = mset [0..<n]"
  shows "\<exists>labels. itm_labels_of n perm = Inr labels \<and> length labels = n \<and>
           count_list labels 1 = n div 2 \<and> count_list labels 0 = n - n div 2"
proof -
  let ?xs = "itm_labels_sorted n"
  let ?ls = "map ((!) ?xs) perm"
  have r: "\<forall>j\<in>set perm. j < length ?xs"
    using perm_in_range [OF assms] by (simp add: length_itm_labels_sorted)
  have sel: "itm_labels_of n perm = Inr ?ls"
    unfolding itm_labels_of_def by (rule index_select_map [OF r])
  have m: "mset ?ls = mset ?xs"
    by (rule mset_index_perm) (simp add: assms length_itm_labels_sorted)
  have len: "length ?ls = n"
    using assms by (metis length_map size_mset length_upt diff_zero)
  have c: "count_list ?ls v = count_list ?xs v" for v
    using m by (metis count_mset)
  have c1: "count_list ?xs 1 = n div 2"
    by (simp add: itm_labels_sorted_def Let_def count_list_replicate)
  have c0: "count_list ?xs 0 = n - n div 2"
    by (simp add: itm_labels_sorted_def Let_def count_list_replicate)
  show ?thesis using sel len c c1 c0 by simp
qed

theorem itm_label_counts_witness:
  "mset [2, 0, 1] = mset [0..<3] \<and>
   (\<exists>labels. itm_labels_of 3 [2, 0, 1] = Inr labels \<and> length labels = 3 \<and>
           count_list labels 1 = 3 div 2 \<and> count_list labels 0 = 3 - 3 div 2)"
proof -
  have h: "mset [2, 0, 1] = mset [0..<3]" by (simp add: upt_rec)
  show ?thesis using h itm_label_counts [OF h] by blast
qed

text \<open>
  The claim as written asks for \<open>ceil(n/2)\<close> ones. A batch of three examples gets one
  label 1, not two.
\<close>

theorem itm_label_ceil_counterexample:
  "itm_labels_of 3 [2, 0, 1] = Inr [0, 1, 0] \<and>
   count_list [0, 1, 0 :: int] 1 \<noteq> nat \<lceil>3 / 2 :: real\<rceil>"
  by (simp add: itm_labels_of_def itm_labels_sorted_def Let_def numeral_3_eq_3)

subsection \<open>The ITM images\<close>

lemma itm_pick_closed:
  "i + length ps \<le> length labels \<Longrightarrow>
   itm_pick labels i ps =
     Inr (map (\<lambda>k. if labels ! (i + k) = 1 then fst (ps ! k) else snd (ps ! k)) [0..<length ps])"
proof (induction ps arbitrary: i)
  case Nil
  then show ?case by simp
next
  case (Cons p ps)
  obtain ti fi where p: "p = (ti, fi)" by (cases p)
  have ih: "itm_pick labels (Suc i) ps =
     Inr (map (\<lambda>k. if labels ! (Suc i + k) = 1 then fst (ps ! k) else snd (ps ! k)) [0..<length ps])"
    using Cons.prems by (intro Cons.IH) simp
  have i: "i < length labels" using Cons.prems by simp
  have u: "[0..<length (p # ps)] = 0 # map Suc [0..<length ps]"
    by (simp add: upt_conv_Cons map_Suc_upt del: upt_Suc)
  show ?case
    unfolding u using i ih by (simp add: p comp_def)
qed

lemma itm_view_closed:
  assumes "length bti = length labels" "length bfi = length labels" "labels \<noteq> []"
  shows "itm_view labels bti bfi =
     Inr (map (\<lambda>k. if labels ! k = 1 then bti ! k else bfi ! k) [0..<length labels])"
proof -
  have "itm_pick labels 0 (zip bti bfi) =
     Inr (map (\<lambda>k. if labels ! (0 + k) = 1 then fst (zip bti bfi ! k) else snd (zip bti bfi ! k))
            [0..<length (zip bti bfi)])"
    by (rule itm_pick_closed) (simp add: assms)
  also have "map (\<lambda>k. if labels ! (0 + k) = 1 then fst (zip bti bfi ! k) else snd (zip bti bfi ! k))
            [0..<length (zip bti bfi)] =
        map (\<lambda>k. if labels ! k = 1 then bti ! k else bfi ! k) [0..<length labels]"
    using assms by (auto intro!: map_cong)
  finally show ?thesis using assms by (simp add: itm_view_def stack_def)
qed

lemma itm_views_closed:
  assumes "\<forall>(bti, bfi)\<in>set ps. length bti = length labels \<and> length bfi = length labels"
      and "labels \<noteq> []"
  shows "itm_views labels ps =
     Inr (map (\<lambda>(bti, bfi). map (\<lambda>k. if labels ! k = 1 then bti ! k else bfi ! k)
                               [0..<length labels]) ps)"
  using assms
proof (induction ps)
  case Nil
  then show ?case by simp
next
  case (Cons p ps)
  obtain bti bfi where p: "p = (bti, bfi)" by (cases p)
  have v: "itm_view labels bti bfi =
     Inr (map (\<lambda>k. if labels ! k = 1 then bti ! k else bfi ! k) [0..<length labels])"
    using Cons.prems by (intro itm_view_closed) (simp_all add: p)
  have r: "itm_views labels ps =
     Inr (map (\<lambda>(bti, bfi). map (\<lambda>k. if labels ! k = 1 then bti ! k else bfi ! k)
                               [0..<length labels]) ps)"
    using Cons.prems by (intro Cons.IH) simp_all
  show ?case by (simp add: p v r)
qed

lemma itm_images_closed:
  assumes "\<forall>b\<in>set images. length b = length labels"
      and "\<forall>b\<in>set false_images. length b = length labels"
      and "labels \<noteq> []"
  shows "itm_images labels images false_images =
     Inr (map (\<lambda>(bti, bfi). map (\<lambda>k. if labels ! k = 1 then bti ! k else bfi ! k)
                               [0..<length labels]) (zip images false_images))"
  unfolding itm_images_def
proof (rule itm_views_closed)
  show "\<forall>(bti, bfi)\<in>set (zip images false_images).
          length bti = length labels \<and> length bfi = length labels"
    using assms(1,2) by (auto dest: set_zip_leftD set_zip_rightD)
  show "labels \<noteq> []" by (rule assms(3))
qed

text \<open>
  Claim C4. For a batch of \<open>n > 0\<close> examples whose views all hold \<open>n\<close> images,
  \<^verbatim>\<open>compute_itm\<close> permutes the label vector only (the labels are the sorted
  vector read at the permuted indices), and in every view of the dictionary handed to
  the encoder the image at index \<open>i\<close> is the image at index \<open>i\<close> of
  \<^verbatim>\<open>batch["image"]\<close> if the permuted label at \<open>i\<close> is 1, and otherwise the image
  at index \<open>i\<close> of \<^verbatim>\<open>batch["false_image_0"]\<close>. Where the two candidates differ,
  the selected image is the true one if and only if the label is 1.
\<close>

theorem itm_image_selection:
  assumes "(h ! a) ''text'' = Some (Strs ts)"
      and "(h ! a) ''image'' = Some (Views images)"
      and "(h ! a) ''false_image_0'' = Some (Views false_images)"
      and "length ts = n" and "0 < n"
      and "\<forall>b\<in>set images. length b = n"
      and "\<forall>b\<in>set false_images. length b = n"
      and "mset perm = mset [0..<n]"
  shows "\<exists>h' labels b imgs.
           itm_prepare h a perm = (h', Inr (labels, b)) \<and>
           labels = map ((!) (itm_labels_sorted n)) perm \<and>
           (h' ! b) ''image'' = Some (Views imgs) \<and>
           length imgs = min (length images) (length false_images) \<and>
           (\<forall>v<length imgs. \<forall>i<n.
              imgs ! v ! i = (if labels ! i = 1 then images ! v ! i else false_images ! v ! i) \<and>
              (images ! v ! i \<noteq> false_images ! v ! i \<longrightarrow>
                 (imgs ! v ! i = images ! v ! i \<longleftrightarrow> labels ! i = 1)))"
proof -
  let ?labels = "map ((!) (itm_labels_sorted n)) perm"
  let ?imgs = "map (\<lambda>(bti, bfi). map (\<lambda>k. if ?labels ! k = 1 then bti ! k else bfi ! k)
                               [0..<length ?labels]) (zip images false_images)"
  let ?b = "length h"
  let ?h' = "(h @ [h ! a])[?b := ((h @ [h ! a]) ! ?b)(''image'' \<mapsto> Views ?imgs)]"
  have r: "\<forall>j\<in>set perm. j < length (itm_labels_sorted n)"
    using perm_in_range [OF assms(8)] by (simp add: length_itm_labels_sorted)
  have lab: "itm_labels_of n perm = Inr ?labels"
    unfolding itm_labels_of_def by (rule index_select_map [OF r])
  have len: "length ?labels = n"
    using assms(8) by (metis length_map size_mset length_upt diff_zero)
  have ne: "?labels \<noteq> []" using len assms(5) by auto
  have im: "itm_images ?labels images false_images = Inr ?imgs"
  proof (rule itm_images_closed)
    show "\<forall>b\<in>set images. length b = length ?labels" using assms(6) len by simp
    show "\<forall>b\<in>set false_images. length b = length ?labels" using assms(7) len by simp
    show "?labels \<noteq> []" by (rule ne)
  qed
  have prep: "itm_prepare h a perm = (?h', Inr (?labels, ?b))"
    by (simp add: itm_prepare_def getitem_def assms(1-4) lab im Let_def del: itm_labels_of_def)
  have img: "(?h' ! ?b) ''image'' = Some (Views ?imgs)" by simp
  have li: "length ?imgs = min (length images) (length false_images)" by simp
  have sel: "?imgs ! v ! i = (if ?labels ! i = 1 then images ! v ! i else false_images ! v ! i)"
    if "v < length ?imgs" "i < n" for v i
    using that len by simp
  show ?thesis
    using prep img li sel by (intro exI conjI) (assumption | simp | rule refl)+
qed

theorem itm_image_selection_witness:
  "\<exists>h' labels b imgs.
     itm_prepare [[''text'' \<mapsto> Strs [''a'', ''b''], ''image'' \<mapsto> Views [[10, 11 :: nat]],
                   ''false_image_0'' \<mapsto> Views [[20, 21]]]] 0 [1, 0] = (h', Inr (labels, b)) \<and>
     labels = map ((!) (itm_labels_sorted 2)) [1, 0] \<and>
     (h' ! b) ''image'' = Some (Views imgs) \<and>
     length imgs = min (length [[10, 11 :: nat]]) (length [[20, 21 :: nat]]) \<and>
     (\<forall>v<length imgs. \<forall>i<2.
        imgs ! v ! i = (if labels ! i = 1 then [[10, 11]] ! v ! i else [[20, 21]] ! v ! i) \<and>
        ([[10, 11]] ! v ! i \<noteq> [[20, 21 :: nat]] ! v ! i \<longrightarrow>
           (imgs ! v ! i = [[10, 11]] ! v ! i \<longleftrightarrow> labels ! i = 1)))"
  by (rule itm_image_selection [where ts = "[''a'', ''b'']"]) (simp_all add: upt_rec)

subsection \<open>The caller's batch\<close>

lemma itm_prepare_cases:
  "(\<exists>e. itm_prepare h a perm = (h, Inl e)) \<or>
   (\<exists>labels imgs. itm_prepare h a perm =
      ((h @ [h ! a])[length h := (h ! a)(''image'' \<mapsto> Views imgs)], Inr (labels, length h)))"
  by (auto simp add: itm_prepare_def Let_def split: sum.splits)

text \<open>
  Claim C10. \<^verbatim>\<open>compute_itm\<close> never mutates the caller's batch: whether it returns
  or raises, the dictionary at the caller's reference, and every dictionary that
  existed before the call, is what it was. When the batch is rebuilt, the new dictionary
  is another object, and it agrees with the caller's on every key but
  \<^verbatim>\<open>"image"\<close>.
\<close>

theorem compute_itm_keeps_batch:
  assumes "a < length h"
  shows "fst (compute_itm f h a perm) ! a = h ! a \<and>
         take (length h) (fst (compute_itm f h a perm)) = h \<and>
         (\<forall>h' labels b. itm_prepare h a perm = (h', Inr (labels, b)) \<longrightarrow>
            b \<noteq> a \<and> fst (compute_itm f h a perm) = h' \<and>
            (\<forall>k. k \<noteq> ''image'' \<longrightarrow> (h' ! b) k = (h ! a) k))"
proof -
  consider (err) e where "itm_prepare h a perm = (h, Inl e)"
    | (ok) labels imgs where "itm_prepare h a perm =
        ((h @ [h ! a])[length h := (h ! a)(''image'' \<mapsto> Views imgs)], Inr (labels, length h))"
    using itm_prepare_cases [of h a perm] by blast
  then show ?thesis
  proof cases
    case err
    then show ?thesis by (simp add: compute_itm_def)
  next
    case ok
    let ?h' = "(h @ [h ! a])[length h := (h ! a)(''image'' \<mapsto> Views imgs)]"
    have f: "fst (compute_itm f h a perm) = ?h'"
      by (simp add: compute_itm_def ok Let_def split: sum.splits)
    have 1: "?h' ! a = h ! a" using assms by (simp add: nth_append)
    have 2: "take (length h) ?h' = h" by simp
    have 3: "length h \<noteq> a" using assms by simp
    have 4: "(?h' ! length h) k = (h ! a) k" if "k \<noteq> ''image''" for k
      using that by simp
    show ?thesis unfolding f using 1 2 3 4 by (simp add: ok)
  qed
qed

theorem compute_itm_keeps_batch_witness:
  "fst (compute_itm (\<lambda>_. [[0, 1], [1, 0]])
          [[''text'' \<mapsto> Strs [''a'', ''b''], ''image'' \<mapsto> Views [[10, 11 :: nat]],
            ''false_image_0'' \<mapsto> Views [[20, 21]]]] 0 [1, 0]) ! 0 =
     [[''text'' \<mapsto> Strs [''a'', ''b''], ''image'' \<mapsto> Views [[10, 11 :: nat]],
       ''false_image_0'' \<mapsto> Views [[20, 21]]]] ! 0"
proof -
  have h: "(0::nat) < length [[''text'' \<mapsto> Strs [''a'', ''b''], ''image'' \<mapsto> Views [[10, 11 :: nat]],
       ''false_image_0'' \<mapsto> Views [[20, 21]]]]" by simp
  show ?thesis using compute_itm_keeps_batch [OF h] by blast
qed

subsection \<open>The VQA targets\<close>

lemma norm_index_ok:
  "- int n \<le> l \<Longrightarrow> l < int n \<Longrightarrow> norm_index n l = Inr (cell_index n l) \<and> cell_index n l < n"
  by (auto simp: norm_index_def cell_index_def Let_def)

lemma vqa_scatter_row_closed:
  "\<forall>(l, s)\<in>set ps. - int (length row) \<le> l \<and> l < int (length row) \<Longrightarrow>
   \<exists>row'. vqa_scatter_row row ps = Inr row' \<and> length row' = length row \<and>
     (\<forall>c<length row. row' ! c =
        (case map_of (rev (map (\<lambda>(l, s). (cell_index (length row) l, s)) ps)) c of
           None \<Rightarrow> row ! c | Some s \<Rightarrow> s))"
proof (induction ps arbitrary: row)
  case Nil
  then show ?case by simp
next
  case (Cons p ps)
  obtain l s where p: "p = (l, s)" by (cases p)
  let ?j = "cell_index (length row) l"
  let ?row1 = "row[?j := s]"
  have n: "norm_index (length row) l = Inr ?j" and j: "?j < length row"
    using Cons.prems norm_index_ok [of "length row" l] by (auto simp: p)
  have "\<forall>(l, s)\<in>set ps. - int (length ?row1) \<le> l \<and> l < int (length ?row1)"
    using Cons.prems by simp
  from Cons.IH [OF this] obtain row' where
    r: "vqa_scatter_row ?row1 ps = Inr row'" and len: "length row' = length row"
    and cells: "\<forall>c<length row. row' ! c =
        (case map_of (rev (map (\<lambda>(l, s). (cell_index (length row) l, s)) ps)) c of
           None \<Rightarrow> ?row1 ! c | Some s \<Rightarrow> s)"
    by auto
  have run: "vqa_scatter_row row (p # ps) = Inr row'"
    by (simp add: p n r)
  have "row' ! c =
        (case map_of (rev (map (\<lambda>(l, s). (cell_index (length row) l, s)) (p # ps))) c of
           None \<Rightarrow> row ! c | Some s \<Rightarrow> s)" if c: "c < length row" for c
    using cells c j by (auto simp: p map_add_def nth_list_update split: option.splits)
  then show ?case using run len by blast
qed

lemma vqa_scatter_closed:
  assumes "\<forall>r\<in>set targets. length r = m"
      and "i + length exs \<le> length targets"
      and "\<forall>(ls, ss)\<in>set exs. \<forall>l\<in>set ls. - int m \<le> l \<and> l < int m"
  shows "\<exists>T. vqa_scatter targets i exs = Inr T \<and> length T = length targets \<and>
     (\<forall>k<length targets. length (T ! k) = m \<and> (\<forall>c<m. T ! k ! c =
        (if i \<le> k \<and> k < i + length exs
         then (case map_of (rev (map (\<lambda>(l, s). (cell_index m l, s))
                                   (zip (fst (exs ! (k - i))) (snd (exs ! (k - i)))))) c of
                 None \<Rightarrow> targets ! k ! c | Some s \<Rightarrow> s)
         else targets ! k ! c)))"
  using assms
proof (induction exs arbitrary: targets i)
  case Nil
  then show ?case by simp
next
  case (Cons ex exs)
  obtain ls ss where ex: "ex = (ls, ss)" by (cases ex)
  have i: "i < length targets" using Cons.prems(2) by simp
  have rowlen: "length (targets ! i) = m" using Cons.prems(1) i by simp
  have "\<forall>(l, s)\<in>set (zip ls ss). - int (length (targets ! i)) \<le> l \<and> l < int (length (targets ! i))"
    using Cons.prems(3) by (auto simp: ex rowlen dest: set_zip_leftD)
  from vqa_scatter_row_closed [OF this] obtain row where
    row: "vqa_scatter_row (targets ! i) (zip ls ss) = Inr row" and rl: "length row = m"
    and rc: "\<forall>c<m. row ! c =
        (case map_of (rev (map (\<lambda>(l, s). (cell_index m l, s)) (zip ls ss))) c of
           None \<Rightarrow> targets ! i ! c | Some s \<Rightarrow> s)"
    by (auto simp: rowlen)
  let ?t1 = "targets[i := row]"
  have t1: "?t1 = targets" if "zip ls ss = []"
  proof -
    have "row = targets ! i" using row that by simp
    then show ?thesis by simp
  qed
  have step: "vqa_scatter targets i (ex # exs) = vqa_scatter ?t1 (Suc i) exs"
    using i row t1 by (simp add: ex)
  have p1: "\<forall>r\<in>set ?t1. length r = m"
    using Cons.prems(1) rl by (auto dest!: set_update_subset_insert [THEN subsetD])
  have p2: "Suc i + length exs \<le> length ?t1" using Cons.prems(2) by simp
  have p3: "\<forall>(ls, ss)\<in>set exs. \<forall>l\<in>set ls. - int m \<le> l \<and> l < int m"
    using Cons.prems(3) by simp
  from Cons.IH [OF p1 p2 p3] obtain T where
    T: "vqa_scatter ?t1 (Suc i) exs = Inr T" and Tl: "length T = length targets"
    and Tc: "\<forall>k<length targets. length (T ! k) = m \<and> (\<forall>c<m. T ! k ! c =
        (if Suc i \<le> k \<and> k < Suc i + length exs
         then (case map_of (rev (map (\<lambda>(l, s). (cell_index m l, s))
                                   (zip (fst (exs ! (k - Suc i))) (snd (exs ! (k - Suc i)))))) c of
                 None \<Rightarrow> ?t1 ! k ! c | Some s \<Rightarrow> s)
         else ?t1 ! k ! c))"
    by auto
  have "length (T ! k) = m \<and> (\<forall>c<m. T ! k ! c =
        (if i \<le> k \<and> k < i + length (ex # exs)
         then (case map_of (rev (map (\<lambda>(l, s). (cell_index m l, s))
                 (zip (fst ((ex # exs) ! (k - i))) (snd ((ex # exs) ! (k - i)))))) c of
                 None \<Rightarrow> targets ! k ! c | Some s \<Rightarrow> s)
         else targets ! k ! c))" if k: "k < length targets" for k
  proof (cases "k = i")
    case True
    then show ?thesis using Tc k i rc by (auto simp: ex cong: option.case_cong)
  next
    case False
    then have "(ex # exs) ! (k - i) = exs ! (k - Suc i)" if "i \<le> k"
      using that by (simp add: nth_Cons')
    then show ?thesis using Tc k False
      by (auto simp: nth_list_update cong: option.case_cong)
  qed
  then show ?case using step T Tl by auto
qed

text \<open>
  Claim C2, as amended. When no more examples carry pairs than there are rows and every
  label addresses a cell of its row, \<^verbatim>\<open>compute_vqa\<close> builds the target matrix,
  and each cell holds the score of the last pair of its example that addresses it, or
  0 when no pair does: a later pair for the same cell overwrites the earlier one, the
  contributions are not summed.
\<close>

theorem vqa_targets_last_write:
  assumes "length vqa_labels \<le> n"
      and "\<forall>ls\<in>set vqa_labels. \<forall>l\<in>set ls. - int m \<le> l \<and> l < int m"
  shows "\<exists>T. vqa_targets n m vqa_labels vqa_scores = Inr T \<and> length T = n \<and>
     (\<forall>i<n. \<forall>c<m. T ! i ! c =
        (if i < length vqa_labels \<and> i < length vqa_scores
         then last_score m (zip (vqa_labels ! i) (vqa_scores ! i)) c else 0))"
proof -
  let ?t0 = "replicate n (replicate m (0::real))"
  let ?exs = "zip vqa_labels vqa_scores"
  have a1: "\<forall>r\<in>set ?t0. length r = m" by simp
  have a2: "0 + length ?exs \<le> length ?t0" using assms(1) by simp
  have a3: "\<forall>(ls, ss)\<in>set ?exs. \<forall>l\<in>set ls. - int m \<le> l \<and> l < int m"
    using assms(2) by (auto dest: set_zip_leftD)
  from vqa_scatter_closed [OF a1 a2 a3] obtain T where
    T: "vqa_scatter ?t0 0 ?exs = Inr T" and Tl: "length T = n"
    and Tc: "\<forall>k<n. length (T ! k) = m \<and> (\<forall>c<m. T ! k ! c =
        (if 0 \<le> k \<and> k < 0 + length ?exs
         then (case map_of (rev (map (\<lambda>(l, s). (cell_index m l, s))
                                   (zip (fst (?exs ! (k - 0))) (snd (?exs ! (k - 0)))))) c of
                 None \<Rightarrow> ?t0 ! k ! c | Some s \<Rightarrow> s)
         else ?t0 ! k ! c))"
    by auto
  have "T ! i ! c =
        (if i < length vqa_labels \<and> i < length vqa_scores
         then last_score m (zip (vqa_labels ! i) (vqa_scores ! i)) c else 0)"
    if "i < n" "c < m" for i c
    using Tc that by (auto simp: last_score_def split: option.splits)
  then show ?thesis using T Tl by (auto simp: vqa_targets_def)
qed

theorem vqa_targets_last_write_witness:
  "\<exists>T. vqa_targets 1 2 [[0, 0]] [[3 / 10, 6 / 10]] = Inr T \<and> length T = 1 \<and>
     (\<forall>i<1. \<forall>c<2. T ! i ! c =
        (if i < length [[0, 0 :: int]] \<and> i < length [[3 / 10, 6 / 10 :: real]]
         then last_score 2 (zip ([[0, 0]] ! i) ([[3 / 10, 6 / 10]] ! i)) c else 0))"
  by (rule vqa_targets_last_write) simp_all

text \<open>
  The claim as written asks for the sum. Two pairs of one example for label 0, with
  scores 0.3 and 0.6, leave 0.6 in the cell, not 0.9.
\<close>

theorem vqa_targets_sum_counterexample:
  "vqa_targets 1 2 [[0, 0]] [[3 / 10, 6 / 10]] = Inr [[6 / 10, 0]] \<and>
   (6 / 10 :: real) \<noteq> 3 / 10 + 6 / 10"
  by (simp add: vqa_targets_def norm_index_def numeral_2_eq_2)

subsection \<open>The masked image modelling loss\<close>

lemma concat_map2_map2_zip:
  "concat (map2 (map2 f) A B) = map (\<lambda>(x, y). f x y) (concat (map2 zip A B))"
  by (induction A arbitrary: B) (auto split: list.splits simp: zip_Cons1)

lemma concat_map2_map2:
  "list_all2 (\<lambda>a b. length a = length b) A B \<Longrightarrow>
   concat (map2 (map2 f) A B) = map2 f (concat A) (concat B)"
  by (induction rule: list_all2_induct) auto

lemma length_concat_eq:
  "list_all2 (\<lambda>a b. length a = length b) A B \<Longrightarrow> length (concat A) = length (concat B)"
  by (induction rule: list_all2_induct) auto

lemma set_concat_zip_all2:
  "list_all2 (list_all2 R) A B \<Longrightarrow> \<forall>(x, y)\<in>set (concat (map2 zip A B)). R x y"
proof (induction rule: list_all2_induct)
  case Nil
  then show ?case by simp
next
  case (Cons a A b B)
  have "\<forall>(x, y)\<in>set (zip a b). R x y"
    using Cons.hyps(1) by (auto simp: list_all2_iff)
  then show ?case using Cons.IH by auto
qed

lemma rows_zip_length:
  "list_all2 (list_all2 R) A B \<Longrightarrow>
   list_all2 (\<lambda>a b. length a = length b) (map2 zip A B) A"
proof (induction rule: list_all2_induct)
  case Nil
  then show ?case by simp
next
  case (Cons a A b B)
  have "length a = length b" using Cons.hyps(1) by (rule list_all2_lengthD)
  then show ?case using Cons.IH by simp
qed

lemma rows_map2_length:
  "list_all2 (list_all2 R) A B \<Longrightarrow>
   list_all2 (\<lambda>a b. length a = length b) (map2 (map2 f) A B) A"
proof (induction rule: list_all2_induct)
  case Nil
  then show ?case by simp
next
  case (Cons a A b B)
  have "length a = length b" using Cons.hyps(1) by (rule list_all2_lengthD)
  then show ?case using Cons.IH by simp
qed

lemma masked_sum:
  assumes "length ps = length ws" and "\<forall>w\<in>set ws. w = 0 \<or> w = (1::real)"
  shows "sum_list (map2 (\<lambda>p w. f p * w) ps ws) =
           sum_list (map f (map fst (filter (\<lambda>(p, w). w = 1) (zip ps ws)))) \<and>
         sum_list ws = real (length (filter (\<lambda>(p, w). w = 1) (zip ps ws)))"
  using assms by (induction ps ws rule: list_induct2) auto

lemma patch_loss_value:
  "x \<noteq> [] \<Longrightarrow> length x = length y \<Longrightarrow>
   patch_loss x y = Some (sum_list (map2 (\<lambda>a b. (a - b) ^ 2) x y) / real (length x))"
  by (cases x; cases y) (simp_all add: patch_loss_def mean_def)

lemma masked_mean_mse:
  assumes shape: "list_all2 (list_all2 (\<lambda>x y. x \<noteq> [] \<and> length x = length y)) logits labels"
      and rows: "list_all2 (\<lambda>a b. length a = length b) logits mim_masks"
      and bin: "\<forall>w\<in>set (concat mim_masks). w = 0 \<or> w = 1"
      and one: "1 \<in> set (concat mim_masks)"
  shows "masked_mean (map2 (map2 patch_loss) logits labels) mim_masks =
           Some (spec_masked_mse logits labels mim_masks)"
proof -
  let ?P = "concat (map2 zip logits labels)"
  let ?M = "concat mim_masks"
  let ?g = "\<lambda>(x, y). sum_list (map2 (\<lambda>a b. (a - b) ^ 2) x y) / real (length x)"
  let ?f = "\<lambda>p. the (case p of (x, y) \<Rightarrow> patch_loss x y)"
  let ?sel = "filter (\<lambda>(p, w). w = 1) (zip ?P ?M)"
  have ok: "\<forall>(x, y)\<in>set ?P. x \<noteq> [] \<and> length x = length y"
    by (rule set_concat_zip_all2 [OF shape])
  have pl: "(case p of (x, y) \<Rightarrow> patch_loss x y) = Some (?g p)" if "p \<in> set ?P" for p
  proof -
    obtain x y where p: "p = (x, y)" by (cases p)
    have "x \<noteq> [] \<and> length x = length y" using ok that p by blast
    then show ?thesis by (simp add: p patch_loss_value)
  qed
  have flat: "concat (map2 (map2 patch_loss) logits labels) = map (\<lambda>(x, y). patch_loss x y) ?P"
    by (rule concat_map2_map2_zip)
  have nonan: "\<not> list_ex (\<lambda>p. p = None) (concat (map2 (map2 patch_loss) logits labels))"
    unfolding flat using pl by (auto simp: list_ex_iff)
  have r1: "list_all2 (\<lambda>a b. length a = length b) (map2 zip logits labels) logits"
    by (rule rows_zip_length [OF shape])
  have r2: "list_all2 (\<lambda>a b. length a = length b) (map2 (map2 patch_loss) logits labels) mim_masks"
    using rows_map2_length [OF shape, of patch_loss] rows
    by (rule list_all2_trans [rotated]) simp
  have len: "length ?P = length ?M"
    using length_concat_eq [OF r1] length_concat_eq [OF rows] by simp
  have w: "concat (map2 (map2 (\<lambda>p w. the p * w)) (map2 (map2 patch_loss) logits labels) mim_masks)
             = map2 (\<lambda>p w. ?f p * w) ?P ?M"
    unfolding concat_map2_map2 [OF r2] flat by (simp add: zip_map1 case_prod_unfold)
  have ms: "sum_list (map2 (\<lambda>p w. ?f p * w) ?P ?M) = sum_list (map ?f (map fst ?sel))"
    and cnt: "sum_list ?M = real (length ?sel)"
    using masked_sum [OF len bin, of ?f] by auto
  have sub: "set (map fst ?sel) \<subseteq> set ?P"
    by (auto dest: set_zip_leftD)
  have fg: "map ?f (map fst ?sel) = map ?g (map fst ?sel)"
  proof (rule map_cong [OF refl])
    fix p assume "p \<in> set (map fst ?sel)"
    then have "p \<in> set ?P" using sub by blast
    then show "?f p = ?g p" using pl by simp
  qed
  have ne: "sum_list ?M \<noteq> 0"
  proof -
    obtain p where "(p, 1) \<in> set (zip ?P ?M)"
      using in_set_impl_in_set_zip2 [OF len one] by blast
    then have "?sel \<noteq> []" by (auto simp: filter_empty_conv)
    then show ?thesis using cnt by simp
  qed
  have num: "sum_list (concat (map2 (map2 (\<lambda>p w. the p * w))
                 (map2 (map2 patch_loss) logits labels) mim_masks)) =
             sum_list (map ?g (map fst ?sel))"
    by (simp only: w ms fg)
  have spec: "spec_masked_mse logits labels mim_masks =
                sum_list (map ?g (map fst ?sel)) / real (length ?sel)"
    by (simp only: spec_masked_mse_def masked_patches_def Let_def length_map)
  have ne': "real (length ?sel) \<noteq> 0" using ne cnt by simp
  show ?thesis
    unfolding masked_mean_def spec num cnt using nonan ne' by simp
qed

text \<open>
  Claim C3, as amended. For logits and labels of one shape [N, L, D] with \<open>D > 0\<close>
  and a mask of shape [N, L] with entries 0 and 1 of which at least one is 1 (at least
  one masked patch), the MIM loss and the UMIM loss are the mean squared error
  restricted to the masked patches: the squared error averaged over the feature axis,
  then averaged over the patches whose mask entry is 1. Unmasked patches do not occur
  in it.
\<close>

theorem mim_loss_masked_mse:
  assumes "list_all2 (list_all2 (\<lambda>x y. x \<noteq> [] \<and> length x = length y)) logits labels"
      and "list_all2 (\<lambda>a b. length a = length b) logits mim_masks"
      and "\<forall>w\<in>set (concat mim_masks). w = 0 \<or> w = 1"
      and "1 \<in> set (concat mim_masks)"
  shows "mim_loss logits labels mim_masks = Some (spec_masked_mse logits labels mim_masks) \<and>
         umim_loss logits labels mim_masks = Some (spec_masked_mse logits labels mim_masks)"
  using masked_mean_mse [OF assms] by (simp add: mim_loss_def umim_loss_def)

theorem mim_loss_masked_mse_witness:
  "mim_loss [[[1, 2], [3, 5]]] [[[0, 0], [0, 0]]] [[1, 0]] =
     Some (spec_masked_mse [[[1, 2], [3, 5]]] [[[0, 0], [0, 0]]] [[1, 0]]) \<and>
   umim_loss [[[1, 2], [3, 5]]] [[[0, 0], [0, 0]]] [[1, 0]] =
     Some (spec_masked_mse [[[1, 2], [3, 5]]] [[[0, 0], [0, 0]]] [[1, 0]]) \<and>
   spec_masked_mse [[[1, 2], [3, 5]]] [[[0, 0], [0, 0]]] [[1, 0]] = 5 / 2"
proof -
  have v: "spec_masked_mse [[[1, 2], [3, 5]]] [[[0, 0], [0, 0]]] [[1, 0]] = 5 / 2"
    by (simp add: spec_masked_mse_def masked_patches_def)
  show ?thesis
    using mim_loss_masked_mse [of "[[[1, 2], [3, 5]]]" "[[[0, 0], [0, 0]]]" "[[1, 0]]"] v
    by simp
qed

text \<open>
  The claim as written asks this of every mask with at least one unmasked element. A
  mask with one unmasked patch and no masked one has sum 0, and the loss is 0/0, no
  mean squared error.
\<close>

theorem mim_loss_unmasked_counterexample:
  "0 \<in> set (concat [[0 :: real]]) \<and>
   mim_loss [[[1]]] [[[0]]] [[0]] = None \<and> umim_loss [[[1]]] [[[0]]] [[0]] = None"
  by (simp add: mim_loss_def umim_loss_def masked_mean_def patch_loss_def mean_def)

subsection \<open>The contrastive labels\<close>

lemma zip_map_upt:
  "zip xs (map f [0..<length xs]) = map (\<lambda>i. (xs ! i, f i)) [0..<length xs]"
  by (rule nth_equalityI) simp_all

lemma cross_entropy_arange:
  assumes "length input = n" and "0 < n" and "\<forall>x\<in>set input. n \<le> length x"
  shows "cross_entropy (- 100) input (map int [0..<n]) =
           Inr (Some (sum_list (map (\<lambda>i. nll (input ! i) (int i)) [0..<n]) / real n))"
proof -
  have z: "zip input (map int [0..<n]) = map (\<lambda>i. (input ! i, int i)) [0..<n]"
    using zip_map_upt [of input int] assms(1) by simp
  have valid: "\<not> list_ex (\<lambda>(x, y). y \<noteq> - 100 \<and> \<not> (0 \<le> y \<and> y < int (length x)))
                   (zip input (map int [0..<n]))"
  proof -
    have "i < length (input ! i)" if "i < n" for i
    proof -
      have "input ! i \<in> set input" using that assms(1) by simp
      then show ?thesis using assms(3) that by fastforce
    qed
    then show ?thesis unfolding z by (auto simp: list_ex_iff)
  qed
  have keep: "filter (\<lambda>(x, y). y \<noteq> - 100) (zip input (map int [0..<n])) =
                map (\<lambda>i. (input ! i, int i)) [0..<n]"
    unfolding z by (simp add: filter_map comp_def)
  have ne: "map (\<lambda>i. (input ! i, int i)) [0..<n] \<noteq> []" using assms(2) by simp
  have m: "mean_nll (map (\<lambda>i. (input ! i, int i)) [0..<n]) =
             Some (sum_list (map (\<lambda>i. nll (input ! i) (int i)) [0..<n]) / real n)"
    unfolding mean_nll_def using ne by (simp add: comp_def)
  show ?thesis
    unfolding cross_entropy_def using valid assms(1) by (simp add: keep m)
qed

text \<open>
  Claim C5. For logits of a batch of \<open>n > 0\<close> examples (\<open>n\<close> rows of at least \<open>n\<close>
  columns in each direction), \<^verbatim>\<open>compute_itc\<close> returns, its labels are the identity
  sequence \<open>0..n-1\<close> whatever the logits are, both directional cross-entropies are
  taken against these labels (row \<open>i\<close> is scored at column \<open>i\<close>), and the loss is the
  arithmetic mean of the two.
\<close>

theorem compute_itc_identity_labels:
  assumes "length logits_image = n" and "length logits_text = n" and "0 < n"
      and "\<forall>x\<in>set logits_image. n \<le> length x"
      and "\<forall>x\<in>set logits_text. n \<le> length x"
  shows "\<exists>r a b. compute_itc logits_image logits_text = Inr r \<and>
           itc_labels r = map int [0..<n] \<and>
           cross_entropy (- 100) logits_image (itc_labels r) = Inr (Some a) \<and>
           cross_entropy (- 100) logits_text (itc_labels r) = Inr (Some b) \<and>
           itc_loss r = Some ((a + b) / 2) \<and>
           a = sum_list (map (\<lambda>i. nll (logits_image ! i) (int i)) [0..<n]) / real n \<and>
           b = sum_list (map (\<lambda>i. nll (logits_text ! i) (int i)) [0..<n]) / real n"
proof -
  let ?a = "sum_list (map (\<lambda>i. nll (logits_image ! i) (int i)) [0..<n]) / real n"
  let ?b = "sum_list (map (\<lambda>i. nll (logits_text ! i) (int i)) [0..<n]) / real n"
  have ca: "cross_entropy (- 100) logits_image (map int [0..<n]) = Inr (Some ?a)"
    by (rule cross_entropy_arange [OF assms(1,3,4)])
  have cb: "cross_entropy (- 100) logits_text (map int [0..<n]) = Inr (Some ?b)"
    by (rule cross_entropy_arange [OF assms(2,3,5)])
  have "compute_itc logits_image logits_text =
          Inr \<lparr>itc_loss = Some ((?a + ?b) / 2), itc_logits_image = logits_image,
               itc_logits_text = logits_text, itc_labels = map int [0..<n]\<rparr>"
    unfolding compute_itc_def Let_def assms(1) ca cb by simp
  then show ?thesis using ca cb by simp
qed

theorem compute_itc_identity_labels_witness:
  "\<exists>r a b. compute_itc [[2, 0], [0, 1]] [[1, 0], [0, 3]] = Inr r \<and>
           itc_labels r = map int [0..<2] \<and>
           cross_entropy (- 100) [[2, 0], [0, 1]] (itc_labels r) = Inr (Some a) \<and>
           cross_entropy (- 100) [[1, 0], [0, 3]] (itc_labels r) = Inr (Some b) \<and>
           itc_loss r = Some ((a + b) / 2) \<and>
           a = sum_list (map (\<lambda>i. nll ([[2, 0], [0, 1]] ! i) (int i)) [0..<2]) / real 2 \<and>
           b = sum_list (map (\<lambda>i. nll ([[1, 0], [0, 3]] ! i) (int i)) [0..<2]) / real 2"
  by (rule compute_itc_identity_labels) simp_all

subsection \<open>The captioning loss\<close>

lemma zip_concat_rows:
  "list_all2 (\<lambda>a b. length a = length b) A B \<Longrightarrow>
   zip (concat A) (concat B) = concat (map2 zip A B)"
  by (induction rule: list_all2_induct) auto

lemma zip_butlast_tl:
  assumes "length xs = length ys"
  shows "zip (butlast xs) (tl ys) = map (\<lambda>t. (xs ! t, ys ! Suc t)) [0..<length ys - 1]"
proof (rule nth_equalityI)
  show "length (zip (butlast xs) (tl ys)) = length (map (\<lambda>t. (xs ! t, ys ! Suc t)) [0..<length ys - 1])"
    using assms by simp
next
  fix i assume "i < length (zip (butlast xs) (tl ys))"
  then have i: "i < length ys - 1" using assms by simp
  then show "zip (butlast xs) (tl ys) ! i = map (\<lambda>t. (xs ! t, ys ! Suc t)) [0..<length ys - 1] ! i"
    using assms by (simp add: nth_butlast nth_tl)
qed

lemma shifted_zip:
  assumes "list_all2 (\<lambda>xs ys. length xs = length ys) logits input_ids"
  shows "zip (concat (map butlast logits)) (concat (map tl input_ids)) =
           shifted_pairs logits input_ids"
proof -
  have rows: "list_all2 (\<lambda>a b. length a = length b) (map butlast logits) (map tl input_ids)"
    using assms by (simp add: list_all2_map1 list_all2_map2 list_all2_mono)
  have "map2 zip (map butlast logits) (map tl input_ids) =
          map2 (\<lambda>xs ys. map (\<lambda>t. (xs ! t, ys ! Suc t)) [0..<length ys - 1]) logits input_ids"
    using assms
  proof (induction rule: list_all2_induct)
    case Nil
    then show ?case by simp
  next
    case (Cons x xs y ys)
    then show ?case by (simp add: zip_butlast_tl)
  qed
  then show ?thesis
    unfolding shifted_pairs_def zip_concat_rows [OF rows] by simp
qed

lemma compute_clm_returns:
  assumes shape: "list_all2 (\<lambda>xs ys. length xs = length ys) logits input_ids"
      and valid: "\<forall>(x, y)\<in>set (shifted_pairs logits input_ids).
                    y = pad \<or> (0 \<le> y \<and> y < int (length x))"
  shows "compute_clm test training pad texts logits input_ids decoded =
           Inr \<lparr>clm_loss = mean_nll (filter (\<lambda>(x, y). y \<noteq> pad) (shifted_pairs logits input_ids)),
                clm_logits = map butlast logits,
                clm_labels = map tl input_ids,
                gen_texts = (if phase_of test training = Train then None
                             else Some (map (\<lambda>text. if text = [] then fallback_text else text) decoded)),
                gt_texts = (if phase_of test training = Train then None else Some texts)\<rparr>"
proof -
  have z: "zip (concat (map butlast logits)) (concat (map tl input_ids)) =
             shifted_pairs logits input_ids"
    by (rule shifted_zip [OF shape])
  have len: "length (concat (map butlast logits)) = length (concat (map tl input_ids))"
  proof -
    have "list_all2 (\<lambda>a b. length a = length b) (map butlast logits) (map tl input_ids)"
      using shape by (simp add: list_all2_map1 list_all2_map2 list_all2_mono)
    then show ?thesis by (induction rule: list_all2_induct) auto
  qed
  have ok: "\<not> list_ex (\<lambda>(x, y). y \<noteq> pad \<and> \<not> (0 \<le> y \<and> y < int (length x)))
                (shifted_pairs logits input_ids)"
    using valid by (auto simp: list_ex_iff)
  have ce: "cross_entropy pad (concat (map butlast logits)) (concat (map tl input_ids)) =
              Inr (mean_nll (filter (\<lambda>(x, y). y \<noteq> pad) (shifted_pairs logits input_ids)))"
    unfolding cross_entropy_def z using len ok by simp
  have fb: "(\<lambda>text::string. if length text > 0 then text else fallback_text) =
            (\<lambda>text. if text = [] then fallback_text else text)"
    by (rule ext) simp
  show ?thesis
    unfolding compute_clm_def Let_def ce fb by simp
qed

text \<open>
  Claim C6. For logits of shape [B, L, V] and input ids of shape [B, L] whose ids are
  class indices or the padding id, \<^verbatim>\<open>compute_clm\<close> returns; the logits it keeps are
  those at positions \<open>0..L-2\<close>, the labels are the input ids at positions \<open>1..L-1\<close>,
  and the loss is the mean negative log-likelihood over the pairs (logits at \<open>t\<close>, id
  at \<open>t+1\<close>) whose id is not the padding id: every padding position is left out.
\<close>

theorem compute_clm_shift:
  assumes "list_all2 (\<lambda>xs ys. length xs = length ys) logits input_ids"
      and "\<forall>(x, y)\<in>set (shifted_pairs logits input_ids).
             y = pad \<or> (0 \<le> y \<and> y < int (length x))"
  shows "\<exists>r. compute_clm test training pad texts logits input_ids decoded = Inr r \<and>
           clm_loss r = mean_nll (filter (\<lambda>(x, y). y \<noteq> pad) (shifted_pairs logits input_ids)) \<and>
           (\<forall>b<length logits.
              clm_logits r ! b = map (\<lambda>t. logits ! b ! t) [0..<length (logits ! b) - 1] \<and>
              clm_labels r ! b = map (\<lambda>t. input_ids ! b ! Suc t) [0..<length (input_ids ! b) - 1])"
proof -
  have bl: "butlast xs = map (\<lambda>t. xs ! t) [0..<length xs - 1]" for xs :: "real list list"
    by (rule nth_equalityI) (simp_all add: nth_butlast)
  have tl: "tl ys = map (\<lambda>t. ys ! Suc t) [0..<length ys - 1]" for ys :: "int list"
    by (rule nth_equalityI) (simp_all add: nth_tl)
  have len: "length logits = length input_ids"
    using assms(1) by (rule list_all2_lengthD)
  show ?thesis
    unfolding compute_clm_returns [OF assms]
    using len bl tl by simp
qed

theorem compute_clm_shift_witness:
  "\<exists>r. compute_clm False True 0 [''ab''] [[[1, 2, 3], [4, 5, 6], [7, 8, 9]]] [[1, 2, 0]] [] = Inr r \<and>
     clm_loss r = mean_nll (filter (\<lambda>(x, y). y \<noteq> 0)
                    (shifted_pairs [[[1, 2, 3], [4, 5, 6], [7, 8, 9]]] [[1, 2, 0]])) \<and>
     shifted_pairs [[[1, 2, 3], [4, 5, 6], [7, 8, 9]]] [[1, 2, 0]] =
       [([1, 2, 3], 2), ([4, 5, 6], 0)]"
proof -
  have s: "shifted_pairs [[[1, 2, 3], [4, 5, 6], [7, 8, 9]]] [[1, 2, 0]] =
       [([1, 2, 3], 2), ([4, 5, 6], 0)]"
    by (simp add: shifted_pairs_def upt_rec)
  have "\<exists>r. compute_clm False True 0 [''ab''] [[[1, 2, 3], [4, 5, 6], [7, 8, 9]]] [[1, 2, 0]] [] = Inr r \<and>
     clm_loss r = mean_nll (filter (\<lambda>(x, y). y \<noteq> 0)
                    (shifted_pairs [[[1, 2, 3], [4, 5, 6], [7, 8, 9]]] [[1, 2, 0]])) \<and>
     (\<forall>b<length [[[1, 2, 3], [4, 5, 6], [7, 8, 9 :: real]]].
        clm_logits r ! b = map (\<lambda>t. [[[1, 2, 3], [4, 5, 6], [7, 8, 9]]] ! b ! t)
                             [0..<length ([[[1, 2, 3], [4, 5, 6], [7, 8, 9 :: real]]] ! b) - 1] \<and>
        clm_labels r ! b = map (\<lambda>t. [[1, 2, 0]] ! b ! Suc t) [0..<length ([[1, 2, 0 :: int]] ! b) - 1])"
    by (rule compute_clm_shift) (simp_all add: s)
  then show ?thesis using s by blast
qed

subsection \<open>The generated texts\<close>

text \<open>
  Claim C9. Outside the training phase, \<^verbatim>\<open>compute_clm\<close> (on inputs on which its
  loss is computed) returns a \<^verbatim>\<open>gen_texts\<close> list with one string per decoded
  string: an empty decoded string is replaced by the fixed fallback phrase, a non-empty
  one is passed through unchanged, and so no string of the list is empty.
\<close>

theorem compute_clm_gen_texts_nonempty:
  assumes "list_all2 (\<lambda>xs ys. length xs = length ys) logits input_ids"
      and "\<forall>(x, y)\<in>set (shifted_pairs logits input_ids).
             y = pad \<or> (0 \<le> y \<and> y < int (length x))"
      and "phase_of test training \<noteq> Train"
  shows "\<exists>r g. compute_clm test training pad texts logits input_ids decoded = Inr r \<and>
           gen_texts r = Some g \<and> length g = length decoded \<and>
           (\<forall>i<length decoded.
              g ! i = (if decoded ! i = [] then fallback_text else decoded ! i)) \<and>
           (\<forall>t\<in>set g. t \<noteq> [])"
proof -
  have fb: "fallback_text \<noteq> []" by (simp add: fallback_text_def)
  show ?thesis
    unfolding compute_clm_returns [OF assms(1,2)]
    using assms(3) fb by auto
qed

theorem compute_clm_gen_texts_nonempty_witness:
  "\<exists>r g. compute_clm False False 0 [''ab''] [[[1, 2, 3], [4, 5, 6], [7, 8, 9]]] [[1, 2, 0]]
            [''no change'', ''''] = Inr r \<and>
     gen_texts r = Some g \<and> g = [''no change'', ''there is no evidence of pulmonary.'']"
proof -
  have s: "shifted_pairs [[[1, 2, 3], [4, 5, 6], [7, 8, 9]]] [[1, 2, 0]] =
       [([1, 2, 3], 2), ([4, 5, 6], 0)]"
    by (simp add: shifted_pairs_def upt_rec)
  have "\<exists>r g. compute_clm False False 0 [''ab''] [[[1, 2, 3], [4, 5, 6], [7, 8, 9]]] [[1, 2, 0]]
            [''no change'', ''''] = Inr r \<and>
           gen_texts r = Some g \<and> length g = length [''no change'', ''''] \<and>
           (\<forall>i<length [''no change'', ''''].
              g ! i = (if [''no change'', ''''] ! i = [] then fallback_text else [''no change'', ''''] ! i)) \<and>
           (\<forall>t\<in>set g. t \<noteq> [])"
    by (rule compute_clm_gen_texts_nonempty) (simp_all add: s phase_of_def)
  then obtain r g where
    r: "compute_clm False False 0 [''ab''] [[[1, 2, 3], [4, 5, 6], [7, 8, 9]]] [[1, 2, 0]]
            [''no change'', ''''] = Inr r" "gen_texts r = Some g"
    and l: "length g = length [''no change'', '''']"
    and c: "\<forall>i<length [''no change'', ''''].
              g ! i = (if [''no change'', ''''] ! i = [] then fallback_text else [''no change'', ''''] ! i)"
    by blast
  have g0: "g ! 0 = ''no change''" using c by simp
  have g1: "g ! 1 = fallback_text" using c by simp
  have "g = [g ! 0, g ! 1]" using l by (cases g; cases "tl g") auto
  then have "g = [''no change'', ''there is no evidence of pulmonary.'']"
    using g0 g1 by (simp add: fallback_text_def)
  then show ?thesis using r by blast
qed

subsection \<open>The retrieval candidates\<close>






subsection \<open>The retrieval recalls\<close>








lemma topk_indices_largest:
  assumes "j \<in> set (topk_indices k xs)" and "j' < length xs" and "j' \<notin> set (topk_indices k xs)"
  shows "xs ! j' \<le> xs ! j"
proof -
  let ?key = "\<lambda>(i, x :: real). - x"
  let ?ys = "sort_key ?key (zip [0..<length xs] xs)"
  have mem: "p \<in> set ?ys \<longleftrightarrow> (fst p < length xs \<and> snd p = xs ! fst p)" for p
    by (cases p) (force simp: in_set_zip)
  obtain p where p: "p \<in> set (take k ?ys)" "fst p = j"
    using assms(1) by (auto simp: topk_indices_def take_map)
  have pv: "snd p = xs ! j" using p mem [of p] by (auto dest: in_set_takeD)
  have "(j', xs ! j') \<in> set ?ys" using assms(2) mem [of "(j', xs ! j')"] by simp
  then have "(j', xs ! j') \<in> set (take k ?ys) \<union> set (drop k ?ys)"
    by (metis append_take_drop_id set_append)
  moreover have "(j', xs ! j') \<notin> set (take k ?ys)"
    using assms(3) by (force simp: topk_indices_def take_map)
  ultimately have q: "(j', xs ! j') \<in> set (drop k ?ys)" by blast
  have "sorted (map ?key (take k ?ys @ drop k ?ys))" by simp
  then have "\<forall>a\<in>set (take k ?ys). \<forall>b\<in>set (drop k ?ys). ?key a \<le> ?key b"
    unfolding map_append sorted_append by auto
  then have "?key p \<le> ?key (j', xs ! j')" using p(1) q by blast
  then show ?thesis using pv by (cases p) simp
qed








end
